theory Spec2Isabelle
  imports Main "HOL-Library.Sublist"
begin

section \<open>Script-block extraction: \<open>Data_Generation.write_script_to_file\<close>\<close>

text \<open>
  The routine under study is \<^verbatim>\<open>write_script_to_file\<close> of
  \<^verbatim>\<open>data_preparation/data_generation.py\<close> (lines 49 to 88). It looks for an opening
  marker with a chain of \<^verbatim>\<open>str.find\<close> calls, looks for the closing fence, slices,
  strips and writes the result to a file.

  A Python \<^verbatim>\<open>str\<close> is modelled as a \<^typ>\<open>string\<close>: a list of characters, one
  \<^typ>\<open>char\<close> per code point, for the code points below 256. Offsets and lengths
  are Python \<^verbatim>\<open>int\<close>s, modelled as \<^typ>\<open>int\<close>, since \<^verbatim>\<open>-1\<close> is the
  "not found" value of \<^verbatim>\<open>str.find\<close>.
\<close>

subsection \<open>The string operations of Python used by the routine\<close>

text \<open>
  \<open>occurs_at sub s k\<close>: the literal \<open>sub\<close> occurs in \<open>s\<close> at offset \<open>k\<close>, that is
  \<^verbatim>\<open>s[k : k + len(sub)] == sub\<close> with the whole occurrence inside \<open>s\<close>.
\<close>

definition occurs_at :: "string \<Rightarrow> string \<Rightarrow> nat \<Rightarrow> bool" where
  "occurs_at sub s k = (k + length sub \<le> length s \<and> take (length sub) (drop k s) = sub)"

text \<open>
  The scan of \<^verbatim>\<open>str.find\<close>: \<open>t\<close> is the text that is left and \<open>i\<close> the offset of
  its first character. The lowest offset with an occurrence is returned, \<open>-1\<close> when
  there is none.
\<close>

fun scan :: "string \<Rightarrow> string \<Rightarrow> nat \<Rightarrow> int" where
  "scan sub [] i = (if sub = [] then int i else -1)"
| "scan sub (c # cs) i =
     (if take (length sub) (c # cs) = sub then int i else scan sub cs (Suc i))"

text \<open>
  \<^verbatim>\<open>s.find(sub, start)\<close>. A negative \<open>start\<close> counts from the end and is clipped at
  0; a \<open>start\<close> beyond the end finds nothing. \<^verbatim>\<open>s.find(sub)\<close> is \<open>str_find s sub 0\<close>.
\<close>

definition str_find :: "string \<Rightarrow> string \<Rightarrow> int \<Rightarrow> int" where
  "str_find s sub start =
     (let n = int (length s);
          st = (if start < 0 then max 0 (start + n) else start)
      in if n < st then -1 else scan sub (drop (nat st) s) (nat st))"

text \<open>\<^verbatim>\<open>s[a:b]\<close>: negative bounds count from the end, and both are clipped to the string.\<close>

definition clip :: "nat \<Rightarrow> int \<Rightarrow> nat" where
  "clip n i = (if i < 0 then nat (max 0 (i + int n)) else min (nat i) n)"

definition str_slice :: "string \<Rightarrow> int \<Rightarrow> int \<Rightarrow> string" where
  "str_slice s a b = take (clip (length s) b - clip (length s) a) (drop (clip (length s) a) s)"

text \<open>
  \<^verbatim>\<open>s.strip()\<close> removes the leading and trailing whitespace. Below code point 256
  Python's whitespace is: 9 to 13, 28 to 31, 32 (space), 133 and 160.
\<close>

definition is_space :: "char \<Rightarrow> bool" where
  "is_space c = (let n = (of_char c :: nat)
     in (9 \<le> n \<and> n \<le> 13) \<or> (28 \<le> n \<and> n \<le> 32) \<or> n = 133 \<or> n = 160)"

definition str_strip :: "string \<Rightarrow> string" where
  "str_strip s = rev (dropWhile is_space (rev (dropWhile is_space s)))"

subsection \<open>The file system\<close>

text \<open>
  The state the routine acts on: the content of each file by name, the log of the
  writes done so far, and which names \<^verbatim>\<open>open(name, "w")\<close> can open. A \<open>Path\<close>
  built from a name opens the file of that name, so files are keyed by name.
\<close>

record world =
  files :: "string \<rightharpoonup> string"
  writes :: "(string \<times> string) list"
  writable :: "string \<Rightarrow> bool"

datatype error = OSError | UnicodeEncodeError

text \<open>
  \<^verbatim>\<open>with open(file_path, "w") as file: file.write(content)\<close>: the file is created or
  truncated and then holds \<open>content\<close>; \<open>open\<close> raises when the file cannot be opened
  for writing, and then nothing is written. This is the write on a platform whose text
  encoding can encode every character of the content, as UTF-8 does for every text of
  the model. The write under any text encoding is \<open>write_file_text\<close> below.
\<close>

definition write_file :: "string \<Rightarrow> string \<Rightarrow> world \<Rightarrow> (error + unit) \<times> world" where
  "write_file file_name content w =
     (if writable w file_name
      then (Inr (), w\<lparr>files := (files w)(file_name \<mapsto> content),
                      writes := writes w @ [(file_name, content)]\<rparr>)
      else (Inl OSError, w))"

subsection \<open>The routine\<close>

definition failure_message :: string where
  "failure_message = ''Script content must be enclosed between ```python and ``` tags.''"

text \<open>
  Lines 54 to 73: the chain of searches for the opening marker. Each search runs over
  the whole text, and runs only when every search before it found nothing; \<open>l1\<close> is the
  length of the marker searched last.
\<close>

definition locate_opening :: "string \<Rightarrow> int \<times> int" where
  "locate_opening script_content =
     (let start_index = str_find script_content ''```python'' 0;
          l1 = int (length ''```python'');
          (start_index, l1) = (if start_index = -1
             then (str_find script_content ''Action:'' 0, int (length ''Action:''))
             else (start_index, l1));
          (start_index, l1) = (if start_index = -1
             then (str_find script_content ''```bash'' 0, int (length ''```bash''))
             else (start_index, l1));
          (start_index, l1) = (if start_index = -1
             then (str_find script_content ''```markdown'' 0, int (length ''```markdown''))
             else (start_index, l1));
          (start_index, l1) = (if start_index = -1
             then (str_find script_content ''```makefile'' 0, int (length ''```makefile''))
             else (start_index, l1));
          (start_index, l1) = (if start_index = -1
             then (str_find script_content ''```text'' 0, int (length ''```text''))
             else (start_index, l1));
          (start_index, l1) = (if start_index = -1
             then (str_find script_content ''```'' 0, int (length ''```''))
             else (start_index, l1))
      in (start_index, l1))"

text \<open>Lines 75 to 77: the search for the closing fence and its fallback.\<close>

definition locate_closing :: "string \<Rightarrow> int \<Rightarrow> int \<Rightarrow> int" where
  "locate_closing script_content start_index l1 =
     (let end_index = str_find script_content ''```'' (start_index + l1)
      in if end_index = -1 then int (length script_content) - 1 else end_index)"

text \<open>
  The whole routine. The result is the returned string, or the error raised, and the
  file system afterwards.
\<close>

definition write_script_to_file :: "string \<Rightarrow> string \<Rightarrow> world \<Rightarrow> (error + string) \<times> world" where
  "write_script_to_file script_content file_name w =
     (let (start_index, l1) = locate_opening script_content;
          end_index = locate_closing script_content start_index l1
      in if start_index = -1 \<or> end_index = -1
         then (Inr failure_message, w)
         else
           let content = str_strip (str_slice script_content (start_index + l1) end_index)
           in case write_file file_name content w of
                (Inl e, w') \<Rightarrow> (Inl e, w')
              | (Inr _, w') \<Rightarrow> (Inr content, w'))"

subsection \<open>The vocabulary of the specification\<close>

text \<open>The seven opening markers, in the order in which the routine tries them.\<close>

definition markers :: "string list" where
  "markers = [''```python'', ''Action:'', ''```bash'', ''```markdown'', ''```makefile'',
              ''```text'', ''```'']"

text \<open>\<open>contains sub s\<close>: \<open>sub\<close> occurs somewhere in \<open>s\<close>.\<close>

fun contains :: "string \<Rightarrow> string \<Rightarrow> bool" where
  "contains sub [] = (sub = [])"
| "contains sub (c # cs) = (take (length sub) (c # cs) = sub \<or> contains sub cs)"

text \<open>
  \<open>next_at sub s a e\<close>: \<open>e\<close> is the smallest offset from \<open>a\<close> on at which \<open>sub\<close>
  occurs in \<open>s\<close>; \<open>first_at sub s k\<close>: \<open>k\<close> is the smallest offset at all.
\<close>

definition next_at :: "string \<Rightarrow> string \<Rightarrow> nat \<Rightarrow> nat \<Rightarrow> bool" where
  "next_at sub s a e = (a \<le> e \<and> occurs_at sub s e \<and> \<not> list_ex (occurs_at sub s) [a..<e])"

definition first_at :: "string \<Rightarrow> string \<Rightarrow> nat \<Rightarrow> bool" where
  "first_at sub s k = next_at sub s 0 k"

text \<open>
  The rule "earliest offset across all seven markers, list order only breaks ties", as
  a function: the markers are visited in list order and one replaces the current
  choice only when it occurs at a strictly smaller offset.
\<close>

definition leftmost_opening :: "string \<Rightarrow> int \<times> int" where
  "leftmost_opening s =
     foldl (\<lambda>(i, l) m. let j = str_find s m 0
                        in if j \<noteq> -1 \<and> (i = -1 \<or> j < i) then (j, int (length m)) else (i, l))
       (-1, 3) markers"

subsection \<open>Auxiliary definitions\<close>

text \<open>The chain of lines 54 to 73 as a recursion over a list of markers.\<close>

fun try_markers :: "string \<Rightarrow> string list \<Rightarrow> int \<times> int" where
  "try_markers s [] = (-1, 0)"
| "try_markers s [m] = (str_find s m 0, int (length m))"
| "try_markers s (m # ms) =
     (if str_find s m 0 \<noteq> -1 then (str_find s m 0, int (length m)) else try_markers s ms)"

text \<open>The content computed at line 82, and the effect of lines 85 to 87 on the file system.\<close>

definition extracted :: "string \<Rightarrow> string" where
  "extracted script_content =
     (let (start_index, l1) = locate_opening script_content;
          end_index = locate_closing script_content start_index l1
      in str_strip (str_slice script_content (start_index + l1) end_index))"

definition written :: "string \<Rightarrow> string \<Rightarrow> world \<Rightarrow> world" where
  "written file_name content w =
     w\<lparr>files := (files w)(file_name \<mapsto> content), writes := writes w @ [(file_name, content)]\<rparr>"

text \<open>A file system with no file yet, in which every name can be opened for writing.\<close>

definition fresh_world :: world where
  "fresh_world = \<lparr>files = Map.empty, writes = [], writable = (\<lambda>_. True)\<rparr>"

subsection \<open>The text encoding of the file\<close>

text \<open>
  Line 86 opens the file in text mode and names no encoding and no error handler, so
  \<^verbatim>\<open>file.write\<close> encodes the content with the default encoding of the platform
  and raises \<^verbatim>\<open>UnicodeEncodeError\<close> on a character that this encoding lacks. The
  encoding is given by the characters it can encode. The whole content is encoded
  before anything reaches the file, and \<open>open\<close> has truncated the file by then: when
  the encoding fails the file is left empty and no write is logged.
\<close>

definition write_file_text ::
  "(char \<Rightarrow> bool) \<Rightarrow> string \<Rightarrow> string \<Rightarrow> world \<Rightarrow> (error + unit) \<times> world" where
  "write_file_text enc file_name content w =
     (if \<not> writable w file_name then (Inl OSError, w)
      else if list_all enc content
      then (Inr (), w\<lparr>files := (files w)(file_name \<mapsto> content),
                      writes := writes w @ [(file_name, content)]\<rparr>)
      else (Inl UnicodeEncodeError, w\<lparr>files := (files w)(file_name \<mapsto> '''')\<rparr>))"

text \<open>The routine, lines 54 to 88, with the write of lines 86 and 87 in text mode.\<close>

definition write_script_to_file_text ::
  "(char \<Rightarrow> bool) \<Rightarrow> string \<Rightarrow> string \<Rightarrow> world \<Rightarrow> (error + string) \<times> world" where
  "write_script_to_file_text enc script_content file_name w =
     (let (start_index, l1) = locate_opening script_content;
          end_index = locate_closing script_content start_index l1
      in if start_index = -1 \<or> end_index = -1
         then (Inr failure_message, w)
         else
           let content = str_strip (str_slice script_content (start_index + l1) end_index)
           in case write_file_text enc file_name content w of
                (Inl e, w') \<Rightarrow> (Inl e, w')
              | (Inr _, w') \<Rightarrow> (Inr content, w'))"

text \<open>Two encodings: ASCII has the code points below 128, UTF-8 has every code point.\<close>

definition ascii_encoding :: "char \<Rightarrow> bool" where
  "ascii_encoding c = ((of_char c :: nat) < 128)"

definition utf8_encoding :: "char \<Rightarrow> bool" where
  "utf8_encoding c = True"

section \<open>Properties of the string operations\<close>

lemma occurs_at_Nil: "occurs_at sub [] k \<longleftrightarrow> sub = [] \<and> k = 0"
  by (auto simp: occurs_at_def)

lemma occurs_at_Cons_0: "occurs_at sub (c # cs) 0 \<longleftrightarrow> take (length sub) (c # cs) = sub"
proof
  assume h: "take (length sub) (c # cs) = sub"
  have "length (take (length sub) (c # cs)) = length sub" using h by simp
  then have "length sub \<le> length (c # cs)" by (simp del: take_Suc_Cons length_Cons) 
  with h show "occurs_at sub (c # cs) 0" by (simp add: occurs_at_def)
qed (simp add: occurs_at_def)

lemma occurs_at_Cons_Suc: "occurs_at sub (c # cs) (Suc k) \<longleftrightarrow> occurs_at sub cs k"
  by (simp add: occurs_at_def)

lemma occurs_at_drop: "a \<le> length s \<Longrightarrow> occurs_at sub (drop a s) k \<longleftrightarrow> occurs_at sub s (a + k)"
  unfolding occurs_at_def by (simp add: add.commute) arith

lemma scan_cases:
  "(scan sub t i = -1 \<and> (\<forall>k. \<not> occurs_at sub t k)) \<or>
   (\<exists>k. scan sub t i = int (i + k) \<and> occurs_at sub t k \<and> (\<forall>j<k. \<not> occurs_at sub t j))"
proof (induction t arbitrary: i)
  case Nil
  then show ?case by (auto simp: occurs_at_Nil)
next
  case (Cons c cs)
  show ?case
  proof (cases "take (length sub) (c # cs) = sub")
    case True
    then have "scan sub (c # cs) i = int (i + 0)" "occurs_at sub (c # cs) 0"
      by (simp_all add: occurs_at_Cons_0)
    then show ?thesis by blast
  next
    case False
    then have s: "scan sub (c # cs) i = scan sub cs (Suc i)" by simp
    have n0: "\<not> occurs_at sub (c # cs) 0" using False by (simp add: occurs_at_Cons_0)
    from Cons.IH[of "Suc i"] show ?thesis
    proof
      assume a: "scan sub cs (Suc i) = - 1 \<and> (\<forall>k. \<not> occurs_at sub cs k)"
      have "\<not> occurs_at sub (c # cs) k" for k
        using a n0 by (cases k) (simp_all add: occurs_at_Cons_Suc)
      with a s show ?thesis by simp
    next
      assume "\<exists>k. scan sub cs (Suc i) = int (Suc i + k) \<and> occurs_at sub cs k \<and> (\<forall>j<k. \<not> occurs_at sub cs j)"
      then obtain k where k: "scan sub cs (Suc i) = int (Suc i + k)" "occurs_at sub cs k"
        "\<forall>j<k. \<not> occurs_at sub cs j" by blast
      have "\<not> occurs_at sub (c # cs) j" if "j < Suc k" for j
        using that k(3) n0 by (cases j) (simp_all add: occurs_at_Cons_Suc)
      moreover have "scan sub (c # cs) i = int (i + Suc k)" using s k(1) by simp
      moreover have "occurs_at sub (c # cs) (Suc k)" using k(2) by (simp add: occurs_at_Cons_Suc)
      ultimately show ?thesis by blast
    qed
  qed
qed

lemma contains_iff: "contains sub s \<longleftrightarrow> (\<exists>k. occurs_at sub s k)"
proof (induction s)
  case Nil
  then show ?case by (auto simp: occurs_at_Nil)
next
  case (Cons c cs)
  have "(\<exists>k. occurs_at sub (c # cs) k) \<longleftrightarrow> occurs_at sub (c # cs) 0 \<or> (\<exists>k. occurs_at sub cs k)"
    by (metis occurs_at_Cons_Suc not0_implies_Suc)
  then show ?case using Cons by (simp add: occurs_at_Cons_0)
qed


lemma occurs_at_append: "occurs_at sub s k \<longleftrightarrow> (\<exists>ps ss. s = ps @ sub @ ss \<and> length ps = k)"
proof
  assume h: "occurs_at sub s k"
  then have "s = take k s @ sub @ drop (length sub) (drop k s)" "length (take k s) = k"
    unfolding occurs_at_def by (metis append_take_drop_id, simp)
  then show "\<exists>ps ss. s = ps @ sub @ ss \<and> length ps = k" by blast
next
  assume "\<exists>ps ss. s = ps @ sub @ ss \<and> length ps = k"
  then show "occurs_at sub s k" by (auto simp: occurs_at_def)
qed

lemma contains_sublist: "contains sub s \<longleftrightarrow> sublist sub s"
  unfolding contains_iff occurs_at_append sublist_def by blast

lemma next_at_iff:
  "next_at sub s a e \<longleftrightarrow>
     a \<le> e \<and> occurs_at sub s e \<and> (\<forall>j. a \<le> j \<and> j < e \<longrightarrow> \<not> occurs_at sub s j)"
  by (auto simp: next_at_def list_ex_iff)

lemma first_at_iff: "first_at sub s k \<longleftrightarrow> occurs_at sub s k \<and> (\<forall>j<k. \<not> occurs_at sub s j)"
  by (auto simp: first_at_def next_at_iff)

lemma str_find_0: "str_find s sub 0 = scan sub s 0"
  by (simp add: str_find_def)

lemma str_find_0_cases:
  "(str_find s sub 0 = -1 \<and> \<not> contains sub s) \<or> (\<exists>k. str_find s sub 0 = int k \<and> first_at sub s k)"
  using scan_cases[of sub s 0] by (auto simp: str_find_0 contains_iff first_at_iff)

lemma str_find_0_none: "\<not> contains sub s \<Longrightarrow> str_find s sub 0 = -1"
  using str_find_0_cases[of s sub] by (auto simp: contains_iff first_at_iff)

lemma str_find_0_some: "contains sub s \<Longrightarrow> \<exists>k. str_find s sub 0 = int k \<and> first_at sub s k"
  using str_find_0_cases[of s sub] by auto

lemma str_find_from_cases:
  "(str_find s sub (int a) = -1 \<and> (\<forall>k\<ge>a. \<not> occurs_at sub s k)) \<or>
   (\<exists>k\<ge>a. str_find s sub (int a) = int k \<and> occurs_at sub s k \<and>
      (\<forall>j. a \<le> j \<and> j < k \<longrightarrow> \<not> occurs_at sub s j))"
proof (cases "a \<le> length s")
  case False
  then have "str_find s sub (int a) = -1" by (simp add: str_find_def)
  moreover have "\<not> occurs_at sub s k" if "a \<le> k" for k
    using that False by (simp add: occurs_at_def)
  ultimately show ?thesis by blast
next
  case True
  then have f: "str_find s sub (int a) = scan sub (drop a s) a" by (simp add: str_find_def)
  from scan_cases[of sub "drop a s" a] show ?thesis
  proof
    assume h: "scan sub (drop a s) a = - 1 \<and> (\<forall>k. \<not> occurs_at sub (drop a s) k)"
    have "\<not> occurs_at sub s k" if "a \<le> k" for k
    proof -
      from h have "\<not> occurs_at sub (drop a s) (k - a)" by blast
      then show ?thesis using that True by (simp add: occurs_at_drop)
    qed
    with h f show ?thesis by simp
  next
    assume "\<exists>k. scan sub (drop a s) a = int (a + k) \<and> occurs_at sub (drop a s) k \<and>
       (\<forall>j<k. \<not> occurs_at sub (drop a s) j)"
    then obtain k where k: "scan sub (drop a s) a = int (a + k)" "occurs_at sub (drop a s) k"
       "\<forall>j<k. \<not> occurs_at sub (drop a s) j" by blast
    have "\<not> occurs_at sub s j" if "a \<le> j" "j < a + k" for j
    proof -
      from that have "j - a < k" by arith
      with k(3) have "\<not> occurs_at sub (drop a s) (j - a)" by blast
      then show ?thesis using that True by (simp add: occurs_at_drop)
    qed
    moreover have "occurs_at sub s (a + k)" using k(2) True by (simp add: occurs_at_drop)
    moreover have "str_find s sub (int a) = int (a + k)" using f k(1) by simp
    ultimately show ?thesis by (metis le_add1)
  qed
qed

lemma locate_opening_chain:
  "locate_opening s =
    (if str_find s ''```python'' 0 \<noteq> -1 then (str_find s ''```python'' 0, 9)
     else if str_find s ''Action:'' 0 \<noteq> -1 then (str_find s ''Action:'' 0, 7)
     else if str_find s ''```bash'' 0 \<noteq> -1 then (str_find s ''```bash'' 0, 7)
     else if str_find s ''```markdown'' 0 \<noteq> -1 then (str_find s ''```markdown'' 0, 11)
     else if str_find s ''```makefile'' 0 \<noteq> -1 then (str_find s ''```makefile'' 0, 11)
     else if str_find s ''```text'' 0 \<noteq> -1 then (str_find s ''```text'' 0, 7)
     else (str_find s ''```'' 0, 3))"
  by (simp add: locate_opening_def Let_def)

lemma find_markers_None: "List.find (\<lambda>m. contains m s) markers = None \<longleftrightarrow> (\<forall>m\<in>set markers. \<not> contains m s)"
  by (auto simp: find_None_iff)

lemma locate_opening_none:
  assumes "\<forall>m\<in>set markers. \<not> contains m s"
  shows "locate_opening s = (-1, 3)"
proof -
  have "str_find s m 0 = -1" if "m \<in> set markers" for m
    using that assms str_find_0_none by blast
  then show ?thesis unfolding locate_opening_chain by (simp add: markers_def)
qed


lemma locate_opening_try: "locate_opening s = try_markers s markers"
  by (simp add: locate_opening_chain markers_def)

lemma try_markers_some:
  "List.find (\<lambda>m. contains m s) ms = Some m \<Longrightarrow>
   \<exists>k. try_markers s ms = (int k, int (length m)) \<and> first_at m s k"
proof (induction s ms rule: try_markers.induct)
  case (1 s)
  then show ?case by simp
next
  case (2 s x)
  then have "x = m" "contains m s" by (simp_all split: if_splits)
  then show ?case using str_find_0_some[of m s] by simp
next
  case (3 s x y ys)
  show ?case
  proof (cases "contains x s")
    case True
    with 3 have "x = m" by simp
    with True show ?thesis using str_find_0_some[of m s] by auto
  next
    case False
    then have "str_find s x 0 = -1" by (rule str_find_0_none)
    moreover have "List.find (\<lambda>m. contains m s) (y # ys) = Some m" using 3(2) False by simp
    ultimately show ?thesis using 3(1) by simp
  qed
qed

lemma locate_opening_some:
  assumes "List.find (\<lambda>m. contains m s) markers = Some m"
  shows "\<exists>k. locate_opening s = (int k, int (length m)) \<and> first_at m s k"
  using try_markers_some[OF assms] by (simp add: locate_opening_try)

lemma str_strip_sublist: "sublist (str_strip t) t"
proof -
  have "sublist (dropWhile is_space (rev (dropWhile is_space t))) (rev (dropWhile is_space t))"
    by (rule sublist_dropWhile)
  then have "sublist (str_strip t) (dropWhile is_space t)"
    by (simp add: str_strip_def sublist_rev_left)
  moreover have "sublist (dropWhile is_space t) t" by (rule sublist_dropWhile)
  ultimately show ?thesis by (rule sublist_order.order_trans)
qed

lemma contains_mono: "contains sub t \<Longrightarrow> sublist t s \<Longrightarrow> contains sub s"
  unfolding contains_sublist by (rule sublist_order.order_trans)

lemma str_slice_nat:
  "a \<le> length s \<Longrightarrow> e \<le> length s \<Longrightarrow> str_slice s (int a) (int e) = take (e - a) (drop a s)"
  by (simp add: str_slice_def clip_def)

lemma cut_no_occurrence:
  assumes "sub \<noteq> []" and "\<forall>j. a \<le> j \<and> j < e \<longrightarrow> \<not> occurs_at sub s j"
  shows "\<not> contains sub (take (e - a) (drop a s))"
proof
  assume "contains sub (take (e - a) (drop a s))"
  then obtain k where k: "occurs_at sub (take (e - a) (drop a s)) k"
    by (auto simp: contains_iff)
  then have len: "k + length sub \<le> e - a" "k + length sub \<le> length s - a"
    by (simp_all add: occurs_at_def)
  from k have "take (length sub) (drop k (take (e - a) (drop a s))) = sub"
    by (simp add: occurs_at_def)
  moreover have "length sub \<le> e - (a + k)" using len by arith
  ultimately have "take (length sub) (drop (a + k) s) = sub"
    by (simp add: drop_take take_take min_def add.commute)
  moreover have "0 < length sub" using assms(1) by simp
  then have "a + k + length sub \<le> length s" "a + k < e" using len by arith+
  ultimately have "occurs_at sub s (a + k)" "a + k < e"
    by (simp_all add: occurs_at_def)
  with assms(2) show False by auto
qed

lemma locate_closing_cases:
  "(\<exists>e\<ge>a. locate_closing s (int k) (int l) = int e \<and> occurs_at ''```'' s e \<and>
       (\<forall>j. a \<le> j \<and> j < e \<longrightarrow> \<not> occurs_at ''```'' s j)) \<or>
   (locate_closing s (int k) (int l) = int (length s) - 1 \<and> (\<forall>j\<ge>a. \<not> occurs_at ''```'' s j))"
  if "a = k + l"
  using str_find_from_cases[of s "''```''" a] that
  by (auto simp: locate_closing_def Let_def)

section \<open>Properties of the routine\<close>

lemma markers_length: "m \<in> set markers \<Longrightarrow> 3 \<le> length m"
  by (auto simp: markers_def)

lemma opening_found:
  assumes "List.find (\<lambda>m. contains m s) markers = Some m"
  shows "\<exists>k. locate_opening s = (int k, int (length m)) \<and> first_at m s k \<and>
           k + length m \<le> length s \<and> 3 \<le> length m"
proof -
  from locate_opening_some[OF assms] obtain k where
    k: "locate_opening s = (int k, int (length m))" "first_at m s k" by blast
  from assms have "m \<in> set markers" by (auto simp: find_Some_iff)
  then have "3 \<le> length m" by (rule markers_length)
  moreover have "k + length m \<le> length s" using k(2) by (simp add: first_at_iff occurs_at_def)
  ultimately show ?thesis using k by blast
qed

lemma write_script_to_file_found:
  assumes op: "locate_opening s = (int k, int l)" and fit: "k + l \<le> length s" and pos: "0 < l"
  shows "\<exists>e. locate_closing s (int k) (int l) = int e \<and> e \<le> length s \<and>
           extracted s = str_strip (take (e - (k + l)) (drop (k + l) s)) \<and>
           \<not> contains ''```'' (extracted s) \<and>
           write_script_to_file s p w =
             (if writable w p then (Inr (extracted s), written p (extracted s) w)
              else (Inl OSError, w))"
proof -
  define a where "a = k + l"
  have len: "0 < length s" using fit pos by arith
  have "\<exists>e. locate_closing s (int k) (int l) = int e \<and> e \<le> length s \<and>
          (\<forall>j. a \<le> j \<and> j < e \<longrightarrow> \<not> occurs_at ''```'' s j)"
    using locate_closing_cases[OF a_def, of s]
  proof
    assume "\<exists>e\<ge>a. locate_closing s (int k) (int l) = int e \<and> occurs_at ''```'' s e \<and>
       (\<forall>j. a \<le> j \<and> j < e \<longrightarrow> \<not> occurs_at ''```'' s j)"
    then obtain e where e: "locate_closing s (int k) (int l) = int e" "occurs_at ''```'' s e"
       "\<forall>j. a \<le> j \<and> j < e \<longrightarrow> \<not> occurs_at ''```'' s j" by blast
    from e(2) have "e \<le> length s" by (simp add: occurs_at_def)
    with e show ?thesis by blast
  next
    assume h: "locate_closing s (int k) (int l) = int (length s) - 1 \<and>
       (\<forall>j\<ge>a. \<not> occurs_at ''```'' s j)"
    have c: "int (length s) - 1 = int (length s - 1)" using len by arith
    from h have "locate_closing s (int k) (int l) = int (length s) - 1" by (rule conjunct1)
    then have "locate_closing s (int k) (int l) = int (length s - 1)" by (simp only: c)
    moreover have "length s - 1 \<le> length s" by simp
    moreover have "\<forall>j. a \<le> j \<and> j < length s - 1 \<longrightarrow> \<not> occurs_at ''```'' s j"
      using h by blast
    ultimately show ?thesis by blast
  qed
  then obtain e where e: "locate_closing s (int k) (int l) = int e" "e \<le> length s"
    "\<forall>j. a \<le> j \<and> j < e \<longrightarrow> \<not> occurs_at ''```'' s j" by blast
  have sl: "str_slice s (int k + int l) (int e) = take (e - a) (drop a s)"
    using str_slice_nat[of a s e] fit e(2) by (simp add: a_def)
  have ex: "extracted s = str_strip (take (e - a) (drop a s))"
    by (simp add: extracted_def op e(1) sl)
  have "\<not> contains ''```'' (take (e - a) (drop a s))"
    using e(3) by (intro cut_no_occurrence) simp_all
  then have nf: "\<not> contains ''```'' (extracted s)"
    using contains_mono[OF _ str_strip_sublist] unfolding ex by blast
  have "write_script_to_file s p w =
      (if writable w p then (Inr (extracted s), written p (extracted s) w) else (Inl OSError, w))"
    by (simp add: write_script_to_file_def op e(1) sl ex write_file_def written_def Let_def)
  with e(1,2) ex nf show ?thesis unfolding a_def by blast
qed

lemma write_script_to_file_none:
  assumes "\<forall>m\<in>set markers. \<not> contains m s"
  shows "write_script_to_file s p w = (Inr failure_message, w)"
  by (simp add: write_script_to_file_def locate_opening_none[OF assms])

lemma failure_message_fence: "contains ''```'' failure_message"
  by (simp add: failure_message_def)

lemma markers_cases:
  "(\<forall>m\<in>set markers. \<not> contains m s) \<or> (\<exists>m. List.find (\<lambda>m. contains m s) markers = Some m)"
  by (cases "List.find (\<lambda>m. contains m s) markers") (auto simp: find_None_iff)

lemma contains_prefix: "contains (a @ r) s \<Longrightarrow> contains a s"
  unfolding contains_sublist
  using sublist_order.order_trans[OF sublist_append_rightI] by blast

lemma no_marker_iff:
  "(\<forall>m\<in>set markers. \<not> contains m s) \<longleftrightarrow> (\<not> contains ''```'' s \<and> \<not> contains ''Action:'' s)"
proof -
  have "contains ''```'' s" if "contains (''```'' @ r) s" for r
    using that by (rule contains_prefix)
  from this[of "''python''"] this[of "''bash''"] this[of "''markdown''"] this[of "''makefile''"]
    this[of "''text''"]
  show ?thesis by (auto simp: markers_def)
qed

lemma locate_opening_length: "locate_opening s = (x, l) \<Longrightarrow> 0 < l"
  by (auto simp: locate_opening_chain split: if_splits)

lemma write_script_to_file_cases:
  "((\<forall>m\<in>set markers. \<not> contains m s) \<and>
      write_script_to_file s p w = (Inr failure_message, w)) \<or>
   ((\<exists>m\<in>set markers. contains m s) \<and> \<not> contains ''```'' (extracted s) \<and>
      write_script_to_file s p w =
        (if writable w p then (Inr (extracted s), written p (extracted s) w)
         else (Inl OSError, w)))"
proof (cases "\<forall>m\<in>set markers. \<not> contains m s")
  case True
  then show ?thesis using write_script_to_file_none by blast
next
  case False
  with markers_cases[of s] obtain m where
    m: "List.find (\<lambda>m. contains m s) markers = Some m" by blast
  from opening_found[OF m] obtain k where
    k: "locate_opening s = (int k, int (length m))" "k + length m \<le> length s" "3 \<le> length m"
    by blast
  from k(3) have "0 < length m" by arith
  from write_script_to_file_found[OF k(1) k(2) this, of p w] False show ?thesis by blast
qed

lemma extracted_not_failure: "\<not> contains ''```'' c \<Longrightarrow> c \<noteq> failure_message"
  using failure_message_fence by blast

lemma locate_closing_next:
  assumes "next_at ''```'' s (k + l) e"
  shows "locate_closing s (int k) (int l) = int e"
proof -
  from assms have e: "k + l \<le> e" "occurs_at ''```'' s e"
    "\<forall>j. k + l \<le> j \<and> j < e \<longrightarrow> \<not> occurs_at ''```'' s j" by (simp_all add: next_at_iff)
  from locate_closing_cases[where a="k + l" and k=k and l=l and s=s, OF refl] show ?thesis
  proof
    assume "\<exists>e'\<ge>k + l. locate_closing s (int k) (int l) = int e' \<and> occurs_at ''```'' s e' \<and>
       (\<forall>j. k + l \<le> j \<and> j < e' \<longrightarrow> \<not> occurs_at ''```'' s j)"
    then obtain e' where e': "k + l \<le> e'" "locate_closing s (int k) (int l) = int e'"
      "occurs_at ''```'' s e'" "\<forall>j. k + l \<le> j \<and> j < e' \<longrightarrow> \<not> occurs_at ''```'' s j" by blast
    have "\<not> e' < e" using e(3) e'(1,3) by blast
    moreover have "\<not> e < e'" using e'(4) e(1,2) by blast
    ultimately have "e' = e" by arith
    with e'(2) show ?thesis by simp
  next
    assume "locate_closing s (int k) (int l) = int (length s) - 1 \<and>
       (\<forall>j\<ge>k + l. \<not> occurs_at ''```'' s j)"
    with e(1,2) show ?thesis by blast
  qed
qed

lemma write_script_to_file_fenced:
  assumes op: "locate_opening s = (int k, int l)" and nx: "next_at ''```'' s (k + l) e"
  shows "extracted s = str_strip (take (e - (k + l)) (drop (k + l) s)) \<and>
         \<not> contains ''```'' (extracted s) \<and>
         write_script_to_file s p w =
           (if writable w p then (Inr (extracted s), written p (extracted s) w)
            else (Inl OSError, w))"
proof -
  from nx have "k + l \<le> e" "e + 3 \<le> length s" by (simp_all add: next_at_iff occurs_at_def)
  then have fit: "k + l \<le> length s" by arith
  from op have "0 < int l" by (rule locate_opening_length)
  then have pos: "0 < l" by simp
  from write_script_to_file_found[OF op fit pos, of p w] obtain e' where
    e': "locate_closing s (int k) (int l) = int e'"
    "extracted s = str_strip (take (e' - (k + l)) (drop (k + l) s))"
    "\<not> contains ''```'' (extracted s)"
    "write_script_to_file s p w =
       (if writable w p then (Inr (extracted s), written p (extracted s) w) else (Inl OSError, w))"
    by blast
  from e'(1) locate_closing_next[OF nx] have "e' = e" by simp
  with e'(2,3,4) show ?thesis by simp
qed

lemma locate_closing_missing:
  assumes "\<forall>j\<ge>k + l. \<not> occurs_at ''```'' s j"
  shows "locate_closing s (int k) (int l) = int (length s) - 1"
  using locate_closing_cases[where a="k + l" and k=k and l=l and s=s, OF refl] assms by blast

lemma missing_closing_fence_content:
  assumes op: "locate_opening s = (int k, int l)" and fit: "k + l \<le> length s"
    and no: "\<forall>j\<ge>k + l. \<not> occurs_at ''```'' s j"
  shows "extracted s = str_strip (butlast (drop (k + l) s))"
proof -
  from op have "0 < int l" by (rule locate_opening_length)
  then have pos: "0 < l" by simp
  from write_script_to_file_found[OF op fit pos] obtain e where
    e: "locate_closing s (int k) (int l) = int e"
    "extracted s = str_strip (take (e - (k + l)) (drop (k + l) s))" by blast
  have "int e = int (length s) - 1" using e(1) locate_closing_missing[OF no] by simp
  then have "e - (k + l) = length (drop (k + l) s) - 1" by simp
  then show ?thesis using e(2) by (simp only: butlast_conv_take)
qed

lemma written_writable: "writable (written p c w) = writable w"
  by (simp add: written_def)

lemma written_twice_files: "files (written p c (written p c w)) = files (written p c w)"
  by (simp add: written_def)

lemma write_file_text_utf8: "write_file_text utf8_encoding p c w = write_file p c w"
  by (simp add: write_file_text_def write_file_def utf8_encoding_def list_all_iff)

lemma write_script_to_file_text_utf8:
  "write_script_to_file_text utf8_encoding s p w = write_script_to_file s p w"
  by (simp add: write_script_to_file_text_def write_script_to_file_def write_file_text_utf8
      Let_def split: prod.split)

lemma write_script_to_file_text_cases:
  "((\<forall>m\<in>set markers. \<not> contains m s) \<and>
      write_script_to_file_text enc s p w = (Inr failure_message, w)) \<or>
   ((\<exists>m\<in>set markers. contains m s) \<and>
      write_script_to_file_text enc s p w =
        (if \<not> writable w p then (Inl OSError, w)
         else if list_all enc (extracted s)
         then (Inr (extracted s), written p (extracted s) w)
         else (Inl UnicodeEncodeError, w\<lparr>files := (files w)(p \<mapsto> '''')\<rparr>)))"
proof (cases "\<forall>m\<in>set markers. \<not> contains m s")
  case True
  then have "write_script_to_file_text enc s p w = (Inr failure_message, w)"
    by (simp add: write_script_to_file_text_def locate_opening_none)
  with True show ?thesis by blast
next
  case False
  with markers_cases[of s] obtain m where
    m: "List.find (\<lambda>m. contains m s) markers = Some m" by blast
  from opening_found[OF m] obtain k where
    k: "locate_opening s = (int k, int (length m))" "k + length m \<le> length s" "3 \<le> length m"
    by blast
  from k(3) have "0 < length m" by arith
  from write_script_to_file_found[OF k(1) k(2) this, of p w] obtain e where
    e: "locate_closing s (int k) (int (length m)) = int e" by blast
  have "write_script_to_file_text enc s p w =
        (if \<not> writable w p then (Inl OSError, w)
         else if list_all enc (extracted s)
         then (Inr (extracted s), written p (extracted s) w)
         else (Inl UnicodeEncodeError, w\<lparr>files := (files w)(p \<mapsto> '''')\<rparr>))"
    by (simp add: write_script_to_file_text_def k(1) e extracted_def write_file_text_def
        written_def Let_def)
  with False show ?thesis by blast
qed

lemma write_script_to_file_text_agrees:
  assumes "list_all enc (extracted s)"
  shows "write_script_to_file_text enc s p w = write_script_to_file s p w"
  using write_script_to_file_text_cases[of s enc p w] write_script_to_file_cases[of s p w] assms
  by auto

section \<open>The claims\<close>

subsection \<open>C1: the opening marker is chosen by list order\<close>

text \<open>
  C1. Whenever at least one of the seven opening markers occurs in the text, the first
  marker in list order that occurs anywhere in it decides both results of the search:
  \<open>start_index\<close> is the smallest offset at which that marker occurs and \<open>l1\<close> is
  its length, wherever the other markers occur.
\<close>

theorem opening_marker_by_list_order:
  "\<exists>m\<in>set markers. contains m raw_text \<Longrightarrow>
   \<exists>m k. List.find (\<lambda>m. contains m raw_text) markers = Some m \<and>
         locate_opening raw_text = (int k, int (length m)) \<and> first_at m raw_text k"
proof -
  assume "\<exists>m\<in>set markers. contains m raw_text"
  with markers_cases[of raw_text] obtain m where
    m: "List.find (\<lambda>m. contains m raw_text) markers = Some m" by blast
  from locate_opening_some[OF m] m show ?thesis by blast
qed

theorem opening_marker_by_list_order_witness:
  "(\<exists>m\<in>set markers. contains m ''``` x Action: y ```python z'') \<and>
   (\<exists>m k. List.find (\<lambda>m. contains m ''``` x Action: y ```python z'') markers = Some m \<and>
      locate_opening ''``` x Action: y ```python z'' = (int k, int (length m)) \<and>
      first_at m ''``` x Action: y ```python z'' k) \<and>
   List.find (\<lambda>m. contains m ''``` x Action: y ```python z'') markers = Some ''```python'' \<and>
   locate_opening ''``` x Action: y ```python z'' = (16, 9)"
proof -
  have h: "\<exists>m\<in>set markers. contains m ''``` x Action: y ```python z''"
    by (simp add: markers_def)
  have "List.find (\<lambda>m. contains m ''``` x Action: y ```python z'') markers = Some ''```python''"
    by (simp add: markers_def)
  moreover have "locate_opening ''``` x Action: y ```python z'' = (16, 9)"
    by (simp add: locate_opening_def str_find_def)
  ultimately show ?thesis
    using h opening_marker_by_list_order[OF h] by blast
qed

subsection \<open>C2: the earliest offset does not decide\<close>

text \<open>
  C2, as stated, says that the marker at the smallest offset wins. In
  \<^verbatim>\<open>Action: ```python x\<close> the marker \<^verbatim>\<open>Action:\<close> occurs at offset 0 and
  \<^verbatim>\<open>```python\<close> at offset 8: the earliest-offset rule gives \<open>(0, 7)\<close>, the routine
  gives \<open>(8, 9)\<close>.
\<close>

theorem earliest_offset_rule_counterexample:
  "leftmost_opening ''Action: ```python x'' = (0, 7) \<and>
   locate_opening ''Action: ```python x'' = (8, 9)"
  by (simp add: leftmost_opening_def markers_def locate_opening_def str_find_def)

text \<open>
  C2, amended. When two of the markers occur in the text, the marker that decides
  \<open>start_index\<close> and \<open>l1\<close> is the first in list order that occurs: it is listed no
  later than the earlier listed of the two, whatever the offsets of the two are, and
  \<open>start_index\<close> is its own smallest offset.
\<close>

theorem list_order_beats_offset:
  assumes "i < j" and "j < length markers"
    and "contains (markers ! i) raw_text" and "contains (markers ! j) raw_text"
  shows "\<exists>i' k. i' \<le> i \<and> (\<forall>n<i'. \<not> contains (markers ! n) raw_text) \<and>
           locate_opening raw_text = (int k, int (length (markers ! i'))) \<and>
           first_at (markers ! i') raw_text k"
proof -
  from assms have "markers ! i \<in> set markers" by simp
  with assms(3) markers_cases[of raw_text] obtain m where
    m: "List.find (\<lambda>m. contains m raw_text) markers = Some m" by blast
  then obtain i' where i': "i' < length markers" "m = markers ! i'"
    "\<forall>n<i'. \<not> contains (markers ! n) raw_text" by (auto simp: find_Some_iff)
  have "i' \<le> i"
  proof (rule ccontr)
    assume "\<not> i' \<le> i"
    then have "i < i'" by simp
    with i'(3) assms(3) show False by blast
  qed
  moreover from locate_opening_some[OF m] obtain k where
    "locate_opening raw_text = (int k, int (length m))" "first_at m raw_text k" by blast
  ultimately show ?thesis using i' by blast
qed

theorem list_order_beats_offset_witness:
  "(0::nat) < 1 \<and> 1 < length markers \<and>
   contains (markers ! 0) ''Action: ```python x'' \<and> contains (markers ! 1) ''Action: ```python x'' \<and>
   (\<exists>i' k. i' \<le> 0 \<and> (\<forall>n<i'. \<not> contains (markers ! n) ''Action: ```python x'') \<and>
       locate_opening ''Action: ```python x'' = (int k, int (length (markers ! i'))) \<and>
       first_at (markers ! i') ''Action: ```python x'' k)"
proof -
  have a: "(0::nat) < 1" "1 < length markers" by (simp_all add: markers_def)
  have b: "contains (markers ! 0) ''Action: ```python x''" by (simp add: markers_def)
  have c: "contains (markers ! 1) ''Action: ```python x''" by (simp add: markers_def)
  from list_order_beats_offset[OF a b c] a b c show ?thesis by blast
qed

subsection \<open>C3: the failure message\<close>

text \<open>
  C3. The routine returns the failure message exactly when none of the seven opening
  markers occurs in the text; in that case the file system is left as it was (no write);
  and no marker occurs exactly when neither \<^verbatim>\<open>```\<close> nor \<^verbatim>\<open>Action:\<close> occurs.
\<close>

theorem failure_iff_no_marker:
  "(fst (write_script_to_file raw_text file_name w) = Inr failure_message
      \<longleftrightarrow> (\<forall>m\<in>set markers. \<not> contains m raw_text)) \<and>
   ((\<forall>m\<in>set markers. \<not> contains m raw_text)
      \<longrightarrow> write_script_to_file raw_text file_name w = (Inr failure_message, w)) \<and>
   ((\<forall>m\<in>set markers. \<not> contains m raw_text)
      \<longleftrightarrow> (\<not> contains ''```'' raw_text \<and> \<not> contains ''Action:'' raw_text))"
proof -
  have "fst (write_script_to_file raw_text file_name w) \<noteq> Inr failure_message"
    if "\<exists>m\<in>set markers. contains m raw_text"
    using write_script_to_file_cases[of raw_text file_name w] that
      extracted_not_failure[of "extracted raw_text"]
    by (auto split: if_splits)
  moreover have "write_script_to_file raw_text file_name w = (Inr failure_message, w)"
    if "\<forall>m\<in>set markers. \<not> contains m raw_text"
    using that by (rule write_script_to_file_none)
  ultimately show ?thesis using no_marker_iff[of raw_text] by auto
qed

theorem failure_iff_no_marker_witness:
  "\<not> contains ''```'' ''print(1)'' \<and> \<not> contains ''Action:'' ''print(1)'' \<and>
   write_script_to_file ''print(1)'' ''out.py'' fresh_world = (Inr failure_message, fresh_world) \<and>
   writes (snd (write_script_to_file ''print(1)'' ''out.py'' fresh_world)) = []"
proof -
  have h: "\<not> contains ''```'' ''print(1)'' \<and> \<not> contains ''Action:'' ''print(1)''" by simp
  have "write_script_to_file ''print(1)'' ''out.py'' fresh_world = (Inr failure_message, fresh_world)"
    using failure_iff_no_marker[of "''print(1)''" "''out.py''" fresh_world] h by blast
  then show ?thesis using h by (simp add: fresh_world_def)
qed

subsection \<open>C4: a missing closing fence\<close>

text \<open>
  C4. With an opening marker and no closing fence the routine does not fail, but the
  fallback of line 77 is \<^verbatim>\<open>len(script_content) - 1\<close>, the offset of the last
  character, and the slice of line 82 excludes its upper bound: the last character of
  the text is dropped. On the text made of \<^verbatim>\<open>```python\<close>, a newline and
  \<^verbatim>\<open>print(1)\<close> the content is \<^verbatim>\<open>print(1\<close>, not \<^verbatim>\<open>print(1)\<close>.
\<close>

theorem missing_closing_fence_drops_last_character:
  "write_script_to_file ''```python\<newline>print(1)'' file_name w =
     (if writable w file_name
      then (Inr ''print(1'', w\<lparr>files := (files w)(file_name \<mapsto> ''print(1''),
                                 writes := writes w @ [(file_name, ''print(1'')]\<rparr>)
      else (Inl OSError, w))"
  by (simp add: write_script_to_file_def locate_opening_def locate_closing_def str_find_def
      str_slice_def clip_def str_strip_def is_space_def write_file_def Let_def)

subsection \<open>C5: the example of the specification\<close>

text \<open>
  C5. For the text of the example (\<^verbatim>\<open>prefix ```python\<close>, a newline,
  \<^verbatim>\<open>print(1)\<close>, a newline, \<^verbatim>\<open>``` suffix\<close>) and every destination
  that can be opened for writing, the routine returns \<^verbatim>\<open>print(1)\<close> and the
  destination file then holds exactly \<^verbatim>\<open>print(1)\<close>.
\<close>

theorem example_prefix_python_suffix:
  "writable w file_name \<Longrightarrow>
   fst (write_script_to_file ''prefix ```python\<newline>print(1)\<newline>``` suffix'' file_name w)
     = Inr ''print(1)'' \<and>
   files (snd (write_script_to_file ''prefix ```python\<newline>print(1)\<newline>``` suffix'' file_name w))
     file_name = Some ''print(1)''"
  by (simp add: write_script_to_file_def locate_opening_def locate_closing_def str_find_def
      str_slice_def clip_def str_strip_def is_space_def write_file_def Let_def)

theorem example_prefix_python_suffix_witness:
  "writable fresh_world ''script.py'' \<and>
   fst (write_script_to_file ''prefix ```python\<newline>print(1)\<newline>``` suffix'' ''script.py'' fresh_world)
     = Inr ''print(1)'' \<and>
   files (snd (write_script_to_file ''prefix ```python\<newline>print(1)\<newline>``` suffix'' ''script.py''
     fresh_world)) ''script.py'' = Some ''print(1)''"
proof -
  have h: "writable fresh_world ''script.py''" by (simp add: fresh_world_def)
  from example_prefix_python_suffix[OF h] h show ?thesis by blast
qed

subsection \<open>C6: the content of a successful call\<close>




subsection \<open>C7: one write on success, none on failure\<close>



subsection \<open>C8: calling twice\<close>

text \<open>
  C8. A second call with the same text and the same destination, on the file system the
  first call left, returns what the first call returned and leaves every file with the
  content it had after the first call.
\<close>

theorem second_call_same_result:
  "fst (write_script_to_file raw_text file_name
          (snd (write_script_to_file raw_text file_name w)))
     = fst (write_script_to_file raw_text file_name w) \<and>
   files (snd (write_script_to_file raw_text file_name
          (snd (write_script_to_file raw_text file_name w))))
     = files (snd (write_script_to_file raw_text file_name w))"
proof (cases "writable w file_name")
  case True
  then have "writable (written file_name c w) file_name" for c by (simp add: written_writable)
  then show ?thesis
    using True write_script_to_file_cases[of raw_text file_name w]
      write_script_to_file_cases[of raw_text file_name
        "written file_name (extracted raw_text) w"]
    by (auto simp: written_twice_files)
next
  case False
  then show ?thesis
    using write_script_to_file_cases[of raw_text file_name w] by auto
qed

theorem second_call_same_result_witness:
  "fst (write_script_to_file ''```text\<newline>hi```'' ''a.txt''
          (snd (write_script_to_file ''```text\<newline>hi```'' ''a.txt'' fresh_world))) = Inr ''hi'' \<and>
   fst (write_script_to_file ''```text\<newline>hi```'' ''a.txt'' fresh_world) = Inr ''hi'' \<and>
   files (snd (write_script_to_file ''```text\<newline>hi```'' ''a.txt''
          (snd (write_script_to_file ''```text\<newline>hi```'' ''a.txt'' fresh_world)))) ''a.txt''
     = Some ''hi''"
proof -
  have r: "write_script_to_file ''```text\<newline>hi```'' ''a.txt'' fresh_world =
     (Inr ''hi'', fresh_world\<lparr>files := (files fresh_world)(''a.txt'' \<mapsto> ''hi''),
                  writes := writes fresh_world @ [(''a.txt'', ''hi'')]\<rparr>)"
    by (simp add: write_script_to_file_def locate_opening_def locate_closing_def str_find_def
      str_slice_def clip_def str_strip_def is_space_def write_file_def Let_def fresh_world_def)
  from second_call_same_result[of "''```text\<newline>hi```''" "''a.txt''" fresh_world] r
  show ?thesis by simp
qed

subsection \<open>C9: exceptions\<close>

text \<open>
  C9, as stated, says that nothing is ever raised for a destination that can be opened
  for writing. With ASCII as the text encoding of the platform, the text made of
  \<^verbatim>\<open>```python\<close>, a newline, \<^verbatim>\<open>caf\<close> followed by the character of code point
  233 (e with an acute accent), and \<^verbatim>\<open>```\<close> makes \<^verbatim>\<open>file.write\<close> raise
  \<^verbatim>\<open>UnicodeEncodeError\<close>; the destination has been truncated by then and is left
  empty.
\<close>

theorem unencodable_content_raises_counterexample:
  "writable fresh_world ''out.py'' \<and>
   write_script_to_file_text ascii_encoding (''```python\<newline>caf'' @ [CHR 0xE9] @ ''```'') ''out.py''
       fresh_world =
     (Inl UnicodeEncodeError, fresh_world\<lparr>files := (files fresh_world)(''out.py'' \<mapsto> '''')\<rparr>)"
  by (simp add: write_script_to_file_text_def locate_opening_def locate_closing_def str_find_def
      str_slice_def clip_def str_strip_def is_space_def write_file_text_def Let_def
      fresh_world_def ascii_encoding_def)

text \<open>
  C9, amended. For every text, every text encoding and every destination that can be
  opened for writing, the routine raises exactly when an opening marker is found and
  the extracted content holds a character that the encoding lacks; it then raises
  \<^verbatim>\<open>UnicodeEncodeError\<close> and leaves the destination empty. In every other case the
  outcome is the returned string: the failure message with the file system unchanged
  when no marker occurs, and otherwise the extracted content with exactly one complete
  write of it to the destination.
\<close>

theorem raises_only_on_unencodable_content:
  assumes "writable w file_name"
  shows
   "((\<exists>e. fst (write_script_to_file_text enc raw_text file_name w) = Inl e) \<longleftrightarrow>
       (\<exists>m\<in>set markers. contains m raw_text) \<and> \<not> list_all enc (extracted raw_text)) \<and>
    ((\<forall>m\<in>set markers. \<not> contains m raw_text) \<longrightarrow>
       write_script_to_file_text enc raw_text file_name w = (Inr failure_message, w)) \<and>
    ((\<exists>m\<in>set markers. contains m raw_text) \<and> list_all enc (extracted raw_text) \<longrightarrow>
       write_script_to_file_text enc raw_text file_name w =
         (Inr (extracted raw_text),
          w\<lparr>files := (files w)(file_name \<mapsto> extracted raw_text),
             writes := writes w @ [(file_name, extracted raw_text)]\<rparr>)) \<and>
    ((\<exists>m\<in>set markers. contains m raw_text) \<and> \<not> list_all enc (extracted raw_text) \<longrightarrow>
       write_script_to_file_text enc raw_text file_name w =
         (Inl UnicodeEncodeError, w\<lparr>files := (files w)(file_name \<mapsto> '''')\<rparr>))"
  using write_script_to_file_text_cases[of raw_text enc file_name w] assms
  by (auto simp: written_def)

theorem raises_only_on_unencodable_content_witness:
  "writable fresh_world ''a.py'' \<and>
   contains ''```python'' ''```python\<newline>x = 1\<newline>```'' \<and>
   extracted ''```python\<newline>x = 1\<newline>```'' = ''x = 1'' \<and>
   list_all ascii_encoding ''x = 1'' \<and>
   write_script_to_file_text ascii_encoding ''```python\<newline>x = 1\<newline>```'' ''a.py'' fresh_world =
     (Inr ''x = 1'', fresh_world\<lparr>files := (files fresh_world)(''a.py'' \<mapsto> ''x = 1''),
                                writes := writes fresh_world @ [(''a.py'', ''x = 1'')]\<rparr>)"
proof -
  have h: "writable fresh_world ''a.py''" by (simp add: fresh_world_def)
  have c: "contains ''```python'' ''```python\<newline>x = 1\<newline>```''" by simp
  then have m: "\<exists>m\<in>set markers. contains m ''```python\<newline>x = 1\<newline>```''"
    by (simp add: markers_def)
  have x: "extracted ''```python\<newline>x = 1\<newline>```'' = ''x = 1''"
    by code_simp
  have a: "list_all ascii_encoding ''x = 1''" by (simp add: ascii_encoding_def)
  from a x have a': "list_all ascii_encoding (extracted ''```python\<newline>x = 1\<newline>```'')"
    by (simp only:)
  note t = raises_only_on_unencodable_content[OF h, of ascii_encoding
      "''```python\<newline>x = 1\<newline>```''"]
  from t[THEN conjunct2, THEN conjunct2, THEN conjunct1] m a'
  have "write_script_to_file_text ascii_encoding ''```python\<newline>x = 1\<newline>```'' ''a.py'' fresh_world =
     (Inr (extracted ''```python\<newline>x = 1\<newline>```''),
      fresh_world\<lparr>files := (files fresh_world)(''a.py'' \<mapsto> extracted ''```python\<newline>x = 1\<newline>```''),
        writes := writes fresh_world @ [(''a.py'', extracted ''```python\<newline>x = 1\<newline>```'')]\<rparr>)"
    by blast
  then have "write_script_to_file_text ascii_encoding ''```python\<newline>x = 1\<newline>```'' ''a.py'' fresh_world =
     (Inr ''x = 1'', fresh_world\<lparr>files := (files fresh_world)(''a.py'' \<mapsto> ''x = 1''),
                                writes := writes fresh_world @ [(''a.py'', ''x = 1'')]\<rparr>)"
    by (simp only: x)
  with h c x a show ?thesis by blast
qed

subsection \<open>C10: a closing fence right at the end of the opening marker\<close>

text \<open>
  C10. When a closing fence starts exactly where the opening marker ends, the search of
  line 75 finds it there, the call succeeds, returns the empty string and leaves the
  destination file empty.
\<close>

theorem closing_fence_at_marker_end:
  assumes "locate_opening raw_text = (int k, int l)"
    and "occurs_at ''```'' raw_text (k + l)"
    and "writable w file_name"
  shows "locate_closing raw_text (int k) (int l) = int (k + l) \<and>
         write_script_to_file raw_text file_name w =
           (Inr '''', w\<lparr>files := (files w)(file_name \<mapsto> ''''),
                        writes := writes w @ [(file_name, '''')]\<rparr>)"
proof -
  have nx: "next_at ''```'' raw_text (k + l) (k + l)"
    using assms(2) by (simp add: next_at_def)
  from write_script_to_file_fenced[OF assms(1) nx, of file_name w]
  have "extracted raw_text = ''''" 
    "write_script_to_file raw_text file_name w =
       (if writable w file_name
        then (Inr (extracted raw_text), written file_name (extracted raw_text) w)
        else (Inl OSError, w))"
    by (simp_all add: str_strip_def)
  with assms(3) locate_closing_next[OF nx] show ?thesis by (simp add: written_def)
qed

theorem closing_fence_at_marker_end_witness:
  "locate_opening ''```python```'' = (int 0, int 9) \<and>
   occurs_at ''```'' ''```python```'' (0 + 9) \<and>
   writable fresh_world ''empty.py'' \<and>
   locate_closing ''```python```'' (int 0) (int 9) = int (0 + 9) \<and>
   write_script_to_file ''```python```'' ''empty.py'' fresh_world =
     (Inr '''', fresh_world\<lparr>files := (files fresh_world)(''empty.py'' \<mapsto> ''''),
                  writes := writes fresh_world @ [(''empty.py'', '''')]\<rparr>)"
proof -
  have a: "locate_opening ''```python```'' = (int 0, int 9)"
    by (simp add: locate_opening_def str_find_def)
  have b: "occurs_at ''```'' ''```python```'' (0 + 9)" by (simp add: occurs_at_def)
  have c: "writable fresh_world ''empty.py''" by (simp add: fresh_world_def)
  from closing_fence_at_marker_end[OF a b c] a b c show ?thesis by blast
qed

end
